theory Spec2Isabelle
  imports Complex_Main
begin

section \<open>Python values used by \<open>llm.py\<close>\<close>

text \<open>
  A Python \<open>str\<close> is a sequence of Unicode code points; it is modelled as the list of
  their numbers.  \<open>str\<close> embeds an ASCII literal of the source.
\<close>

type_synonym pystr = "nat list"

definition str :: "string \<Rightarrow> pystr" where
  "str s = map of_char s"

text \<open>The exceptions that can leave the two functions of \<open>llm.py\<close>.\<close>

datatype py_error =
    IndexError
  | KeyError
  | JSONDecodeError
  | ConnectivityError
  | InferenceError
  | StorageError
  | OSError

text \<open>\<open>LookupError\<close> is the base class of \<open>IndexError\<close> and \<open>KeyError\<close>.\<close>

fun is_LookupError :: "py_error \<Rightarrow> bool" where
  "is_LookupError IndexError = True"
| "is_LookupError KeyError = True"
| "is_LookupError _ = False"

text \<open>\<open>sub in s\<close> on strings: \<open>sub\<close> occurs in \<open>s\<close> as a contiguous slice.\<close>

fun py_in :: "'a list \<Rightarrow> 'a list \<Rightarrow> bool" where
  "py_in sub [] = (sub = [])"
| "py_in sub (c # cs) = (take (length sub) (c # cs) = sub \<or> py_in sub cs)"

text \<open>
  A \<open>dict\<close> keeps its keys in insertion order: \<open>d[k] = v\<close> replaces the value of a key
  that is present, in place, and appends a new key at the end.
\<close>

type_synonym ('k, 'v) pydict = "('k \<times> 'v) list"

fun dict_setitem :: "('k, 'v) pydict \<Rightarrow> 'k \<Rightarrow> 'v \<Rightarrow> ('k, 'v) pydict" where
  "dict_setitem [] k v = [(k, v)]"
| "dict_setitem (p # ps) k v = (if fst p = k then (k, v) # ps else p # dict_setitem ps k v)"

definition dict_get :: "('k, 'v) pydict \<Rightarrow> 'k \<Rightarrow> 'v option" where
  "dict_get d k = map_of d k"

definition dict_keys :: "('k, 'v) pydict \<Rightarrow> 'k list" where
  "dict_keys d = map fst d"


section \<open>The metrics fetcher\<close>

text \<open>
  The warehouse is outside the program: \<open>connect_snowflake\<close> either raises or opens a
  connection, and \<open>pd.read_sql\<close> either raises or returns the rows of the result, in
  order, as pairs (\<open>KEYPOINT_NAME\<close>, \<open>RMSE\<close>).  The RMSE values are only copied, so
  their type is left open.
\<close>

type_synonym 'v dataframe = "(pystr \<times> 'v) list"

record 'v warehouse =
  connect_snowflake :: "py_error option"
  read_sql :: "pystr \<Rightarrow> py_error + 'v dataframe"

datatype event =
    ConnOpen
  | ReadSql pystr
  | ConnClose

record 'v rmse_metrics =
  positional_rmse :: "(pystr, 'v) pydict"
  knee_angle_rmse :: 'v
  hip_abduction_angle_rmse :: 'v

definition default_table_name :: pystr where
  "default_table_name = str ''RMSE_RESULTS''"

definition ANGLE :: pystr where
  "ANGLE = str ''ANGLE''"

definition KNEE_ANGLE :: pystr where
  "KNEE_ANGLE = str ''KNEE_ANGLE''"

definition HIP_ABDUCTION_ANGLE :: pystr where
  "HIP_ABDUCTION_ANGLE = str ''HIP_ABDUCTION_ANGLE''"

definition query_text :: "pystr \<Rightarrow> pystr" where
  "query_text table_name = str ''SELECT KEYPOINT_NAME, RMSE FROM '' @ table_name @ str '';''"

text \<open>
  Line 23: the dict comprehension over \<open>df.iterrows()\<close>, which stores every row whose
  name does not contain \<open>"ANGLE"\<close>, in row order.
\<close>

fun rmse_3d :: "(pystr, 'v) pydict \<Rightarrow> 'v dataframe \<Rightarrow> (pystr, 'v) pydict" where
  "rmse_3d d [] = d"
| "rmse_3d d (row # df) =
     (if \<not> py_in ANGLE (fst row) then rmse_3d (dict_setitem d (fst row) (snd row)) df
      else rmse_3d d df)"

text \<open>
  Lines 24 and 25: \<open>df[df["KEYPOINT_NAME"] == name]["RMSE"].values[0]\<close>.  The boolean
  mask keeps the matching rows in order; index 0 of an empty array raises \<open>IndexError\<close>.
\<close>

definition rmse_of_name :: "pystr \<Rightarrow> 'v dataframe \<Rightarrow> py_error + 'v" where
  "rmse_of_name name df =
     (case filter (\<lambda>row. fst row = name) df of
        [] \<Rightarrow> Inl IndexError
      | row # _ \<Rightarrow> Inr (snd row))"

text \<open>Lines 22 to 26: the three entries are evaluated in the order they are written.\<close>

definition build_rmse_metrics :: "'v dataframe \<Rightarrow> py_error + 'v rmse_metrics" where
  "build_rmse_metrics df =
     (let d3 = rmse_3d [] df in
      case rmse_of_name KNEE_ANGLE df of
        Inl e \<Rightarrow> Inl e
      | Inr knee \<Rightarrow>
          (case rmse_of_name HIP_ABDUCTION_ANGLE df of
             Inl e \<Rightarrow> Inl e
           | Inr hip \<Rightarrow>
               Inr \<lparr>positional_rmse = d3, knee_angle_rmse = knee,
                    hip_abduction_angle_rmse = hip\<rparr>))"

text \<open>
  Lines 15 to 28.  The result is paired with the trace of what happened to the
  connection.  \<open>conn.close()\<close> is the statement after \<open>pd.read_sql\<close>: when the query
  raises, the exception leaves the function before that statement runs.
\<close>

definition fetch_rmse_metrics_from_snowflake ::
  "'v warehouse \<Rightarrow> pystr \<Rightarrow> (py_error + 'v rmse_metrics) \<times> event list" where
  "fetch_rmse_metrics_from_snowflake wh table_name =
     (case connect_snowflake wh of
        Some e \<Rightarrow> (Inl e, [])
      | None \<Rightarrow>
          (let query = query_text table_name in
           case read_sql wh query of
             Inl e \<Rightarrow> (Inl e, [ConnOpen, ReadSql query])
           | Inr df \<Rightarrow> (build_rmse_metrics df, [ConnOpen, ReadSql query, ConnClose])))"

text \<open>A connection that was opened and never closed.\<close>

definition connection_left_open :: "event list \<Rightarrow> bool" where
  "connection_left_open tr = (ConnOpen \<in> set tr \<and> ConnClose \<notin> set tr)"

text \<open>A warehouse whose connection opens and whose query returns the table \<open>df\<close>.\<close>

definition table_warehouse :: "'v dataframe \<Rightarrow> 'v warehouse" where
  "table_warehouse df = \<lparr>connect_snowflake = None, read_sql = (\<lambda>_. Inr df)\<rparr>"

text \<open>A warehouse whose connection opens and whose query raises.\<close>

definition failing_warehouse :: "'v warehouse" where
  "failing_warehouse = \<lparr>connect_snowflake = None, read_sql = (\<lambda>_. Inl ConnectivityError)\<rparr>"

text \<open>
  RMSE values are \<open>float\<close>s.  A finite one is modelled by the rational number it
  denotes (every finite double is one); negative zero and the three non-finite values
  are separate.
\<close>

datatype pyfloat = Finite rat | NegZero | PosInf | NegInf | NaN


text \<open>Tables used to run the fetcher on concrete rows.\<close>

definition example_table :: "pyfloat dataframe" where
  "example_table =
     [(KNEE_ANGLE, Finite 5.123), (HIP_ABDUCTION_ANGLE, Finite 3.456),
      (str ''LEFT_WRIST'', Finite 0.0812)]"

definition duplicates_table :: "pyfloat dataframe" where
  "duplicates_table =
     [(str ''LEFT_WRIST'', Finite 1), (KNEE_ANGLE, Finite 2), (HIP_ABDUCTION_ANGLE, Finite 3),
      (KNEE_ANGLE, Finite 4), (str ''LEFT_WRIST'', Finite 5), (HIP_ABDUCTION_ANGLE, Finite 6)]"

definition no_hip_table :: "pyfloat dataframe" where
  "no_hip_table = [(KNEE_ANGLE, Finite 5.123), (str ''LEFT_WRIST'', Finite 0.0812)]"


section \<open>Number formatting\<close>

definition is_digit :: "nat \<Rightarrow> bool" where
  "is_digit c = (48 \<le> c \<and> c \<le> 57)"

text \<open>\<open>str(n)\<close> for a natural number: its decimal digits.\<close>

fun str_nat :: "nat \<Rightarrow> pystr" where
  "str_nat n = (if n < 10 then [48 + n] else str_nat (n div 10) @ [48 + n mod 10])"

declare str_nat.simps [simp del]

definition str_int :: "int \<Rightarrow> pystr" where
  "str_int i = (if i < 0 then 45 # str_nat (nat (- i)) else str_nat (nat i))"

text \<open>Rounding to the nearest integer, ties to the even one.\<close>

definition round_half_even :: "rat \<Rightarrow> int" where
  "round_half_even x =
     (let f = \<lfloor>x\<rfloor>; r = x - of_int f
      in if r < 1 / 2 then f else if 1 / 2 < r then f + 1 else if even f then f else f + 1)"

definition zfill :: "nat \<Rightarrow> pystr \<Rightarrow> pystr" where
  "zfill d s = replicate (d - length s) 48 @ s"

text \<open>
  The digits of \<open>format(x, '.df')\<close> for \<open>x \<ge> 0\<close>: the exact value is rounded to \<open>d\<close>
  decimals, half to even, and printed with all \<open>d\<close> of them.
\<close>

definition fixed_digits :: "nat \<Rightarrow> rat \<Rightarrow> pystr" where
  "fixed_digits d x =
     (let n = nat (round_half_even (x * 10 ^ d))
      in str_nat (n div 10 ^ d) @ (if d = 0 then [] else 46 # zfill d (str_nat (n mod 10 ^ d))))"

fun format_f :: "nat \<Rightarrow> pyfloat \<Rightarrow> pystr" where
  "format_f d (Finite x) = (if x < 0 then 45 # fixed_digits d (- x) else fixed_digits d x)"
| "format_f d NegZero = 45 # fixed_digits d 0"
| "format_f d PosInf = str ''inf''"
| "format_f d NegInf = str ''-inf''"
| "format_f d NaN = str ''nan''"



fun join :: "'a list \<Rightarrow> 'a list list \<Rightarrow> 'a list" where
  "join sep [] = []"
| "join sep [x] = x"
| "join sep (x # y # ys) = x @ sep @ join sep (y # ys)"


section \<open>JSON\<close>

text \<open>
  The values \<open>json.loads\<close> returns: \<open>None\<close>, \<open>bool\<close>, \<open>int\<close>, \<open>float\<close>, \<open>str\<close>,
  \<open>list\<close> and \<open>dict\<close> (with \<open>str\<close> keys, in insertion order).  The type \<open>'f\<close> stands for
  Python's \<open>float\<close>: \<open>float_of_str\<close> is \<open>float(s)\<close>, which the decoder applies to a
  number literal with a fraction or an exponent and to \<open>NaN\<close>, \<open>Infinity\<close> and
  \<open>-Infinity\<close>, and \<open>float_repr\<close> is the text the encoder writes for a float.
\<close>

datatype 'f json =
    JNull
  | JBool bool
  | JInt int
  | JFloat 'f
  | JStr pystr
  | JArr "'f json list"
  | JObj "(pystr \<times> 'f json) list"

record 'f float_ops =
  float_of_str :: "pystr \<Rightarrow> 'f"
  float_repr :: "'f \<Rightarrow> pystr"

subsection \<open>\<open>json.dumps(obj, indent=2)\<close>\<close>

definition hex_digit :: "nat \<Rightarrow> nat" where
  "hex_digit d = (if d < 10 then 48 + d else 87 + d)"

text \<open>\<open>'\\u{0:04x}'.format(n)\<close> for \<open>n < 0x10000\<close>.\<close>

definition u_escape :: "nat \<Rightarrow> pystr" where
  "u_escape n =
     [92, 117, hex_digit (n div 4096 mod 16), hex_digit (n div 256 mod 16),
      hex_digit (n div 16 mod 16), hex_digit (n mod 16)]"

text \<open>
  One character under \<open>ensure_ascii\<close>: the short escapes, the printable ASCII characters
  as they are, \<open>\\uXXXX\<close> for the rest of the basic plane, and a surrogate pair
  \<open>0xd800 | ((n >> 10) & 0x3ff)\<close>, \<open>0xdc00 | (n & 0x3ff)\<close> with \<open>n = c - 0x10000\<close> above it.
\<close>

definition encode_char :: "nat \<Rightarrow> pystr" where
  "encode_char c =
     (if c = 34 then [92, 34]
      else if c = 92 then [92, 92]
      else if c = 10 then [92, 110]
      else if c = 13 then [92, 114]
      else if c = 9 then [92, 116]
      else if c = 12 then [92, 102]
      else if c = 8 then [92, 98]
      else if 32 \<le> c \<and> c \<le> 126 then [c]
      else if c < 65536 then u_escape c
      else u_escape (55296 + (c - 65536) div 1024 mod 1024)
           @ u_escape (56320 + (c - 65536) mod 1024))"

definition encode_basestring_ascii :: "pystr \<Rightarrow> pystr" where
  "encode_basestring_ascii s = [34] @ concat (map encode_char s) @ [34]"

definition newline_indent :: "nat \<Rightarrow> pystr" where
  "newline_indent level = 10 # replicate (2 * level) 32"

fun iterencode :: "('f \<Rightarrow> pystr) \<Rightarrow> nat \<Rightarrow> 'f json \<Rightarrow> pystr" where
  "iterencode fr level JNull = str ''null''"
| "iterencode fr level (JBool b) = (if b then str ''true'' else str ''false'')"
| "iterencode fr level (JInt i) = str_int i"
| "iterencode fr level (JFloat x) = fr x"
| "iterencode fr level (JStr s) = encode_basestring_ascii s"
| "iterencode fr level (JArr xs) =
     (if xs = [] then str ''[]''
      else [91] @ newline_indent (Suc level)
           @ join (44 # newline_indent (Suc level)) (map (iterencode fr (Suc level)) xs)
           @ newline_indent level @ [93])"
| "iterencode fr level (JObj kvs) =
     (if kvs = [] then str ''{}''
      else [123] @ newline_indent (Suc level)
           @ join (44 # newline_indent (Suc level))
               (map (\<lambda>(k, v). encode_basestring_ascii k @ [58, 32] @ iterencode fr (Suc level) v)
                  kvs)
           @ newline_indent level @ [125])"

definition json_dumps :: "'f float_ops \<Rightarrow> 'f json \<Rightarrow> pystr" where
  "json_dumps fo obj = iterencode (float_repr fo) 0 obj"

subsection \<open>\<open>json.loads(s)\<close>\<close>

definition is_ws :: "nat \<Rightarrow> bool" where
  "is_ws c = (c = 32 \<or> c = 9 \<or> c = 10 \<or> c = 13)"

definition skip_ws :: "pystr \<Rightarrow> pystr" where
  "skip_ws s = dropWhile is_ws s"

definition hex_val :: "nat \<Rightarrow> nat option" where
  "hex_val c =
     (if 48 \<le> c \<and> c \<le> 57 then Some (c - 48)
      else if 97 \<le> c \<and> c \<le> 102 then Some (c - 87)
      else if 65 \<le> c \<and> c \<le> 70 then Some (c - 55)
      else None)"

definition hex4_val :: "nat \<Rightarrow> nat \<Rightarrow> nat \<Rightarrow> nat \<Rightarrow> nat option" where
  "hex4_val a b c d =
     (case (hex_val a, hex_val b, hex_val c, hex_val d) of
        (Some x, Some y, Some z, Some w) \<Rightarrow> Some (4096 * x + 256 * y + 16 * z + w)
      | _ \<Rightarrow> None)"

definition simple_escape :: "nat \<Rightarrow> nat option" where
  "simple_escape e =
     (if e = 34 then Some 34
      else if e = 92 then Some 92
      else if e = 47 then Some 47
      else if e = 98 then Some 8
      else if e = 102 then Some 12
      else if e = 110 then Some 10
      else if e = 114 then Some 13
      else if e = 116 then Some 9
      else None)"

definition is_high_surrogate :: "nat \<Rightarrow> bool" where
  "is_high_surrogate n = (55296 \<le> n \<and> n \<le> 56319)"

definition is_low_surrogate :: "nat \<Rightarrow> bool" where
  "is_low_surrogate n = (56320 \<le> n \<and> n \<le> 57343)"

definition join_surrogates :: "nat \<Rightarrow> nat \<Rightarrow> nat" where
  "join_surrogates hi lo = 65536 + (hi - 55296) * 1024 + (lo - 56320)"

text \<open>A \<open>\\uXXXX\<close> escape of a low surrogate at the head of the input.\<close>

definition low_escape :: "pystr \<Rightarrow> (nat \<times> pystr) option" where
  "low_escape s =
     (case s of
        b # u # x1 # x2 # x3 # x4 # rest \<Rightarrow>
          if b = 92 \<and> u = 117 then
            (case hex4_val x1 x2 x3 x4 of
               None \<Rightarrow> None
             | Some n \<Rightarrow> if is_low_surrogate n then Some (n, rest) else None)
          else None
      | _ \<Rightarrow> None)"

definition cons_char :: "nat \<Rightarrow> (pystr \<times> pystr) option \<Rightarrow> (pystr \<times> pystr) option" where
  "cons_char c r = map_option (\<lambda>(s, rest). (c # s, rest)) r"

text \<open>
  \<open>scanstring\<close> in strict mode, from the character after the opening quote: the decoded
  string and the input after the closing quote.  A raw control character, an unknown
  escape, a bad \<open>\\u\<close> escape and the end of the input before the closing quote are errors.
  A high surrogate escape directly followed by a low surrogate escape is one character.
\<close>

fun scanstring :: "pystr \<Rightarrow> (pystr \<times> pystr) option" where
  "scanstring [] = None"
| "scanstring (c # cs) =
     (if c = 34 then Some ([], cs)
      else if c = 92 then
        (case cs of
           [] \<Rightarrow> None
         | e # es \<Rightarrow>
             if e = 117 then
               (case es of
                  x1 # x2 # x3 # x4 # rest \<Rightarrow>
                    (case hex4_val x1 x2 x3 x4 of
                       None \<Rightarrow> None
                     | Some n \<Rightarrow>
                         if is_high_surrogate n then
                           (case rest of
                              b # u # y1 # y2 # y3 # y4 # rest2 \<Rightarrow>
                                (case low_escape rest of
                                   Some (m, _) \<Rightarrow> cons_char (join_surrogates n m) (scanstring rest2)
                                 | None \<Rightarrow> cons_char n (scanstring rest))
                            | _ \<Rightarrow> cons_char n (scanstring rest))
                         else cons_char n (scanstring rest))
                | _ \<Rightarrow> None)
             else
               (case simple_escape e of
                  None \<Rightarrow> None
                | Some d \<Rightarrow> cons_char d (scanstring es)))
      else if c < 32 then None
      else cons_char c (scanstring cs))"

text \<open>
  The number grammar \<open>-?(0|[1-9][0-9]*)(\\.[0-9]+)?([eE][-+]?[0-9]+)?\<close>, longest match:
  whether the literal has a fraction or an exponent, its text, and the rest of the input.
\<close>

definition match_exponent :: "pystr \<Rightarrow> pystr \<times> pystr" where
  "match_exponent s =
     (case s of
        [] \<Rightarrow> ([], s)
      | e # s1 \<Rightarrow>
          if e = 101 \<or> e = 69 then
            (let sg = (case s1 of [] \<Rightarrow> [] | c # _ \<Rightarrow> if c = 43 \<or> c = 45 then [c] else []);
                 s2 = drop (length sg) s1;
                 ds = takeWhile is_digit s2
             in if ds = [] then ([], s) else (e # sg @ ds, dropWhile is_digit s2))
          else ([], s))"

definition match_fraction :: "pystr \<Rightarrow> pystr \<times> pystr" where
  "match_fraction s =
     (case s of
        p # d # r \<Rightarrow>
          if p = 46 \<and> is_digit d then (p # d # takeWhile is_digit r, dropWhile is_digit r)
          else ([], s)
      | _ \<Rightarrow> ([], s))"

definition match_number :: "pystr \<Rightarrow> (bool \<times> pystr \<times> pystr) option" where
  "match_number s =
     (let sg = (case s of [] \<Rightarrow> [] | c # _ \<Rightarrow> if c = 45 then [c] else []);
          s1 = drop (length sg) s
      in case s1 of
           [] \<Rightarrow> None
         | c # cs \<Rightarrow>
             if \<not> is_digit c then None
             else
               (let ip = (if c = 48 then [c] else c # takeWhile is_digit cs);
                    s2 = (if c = 48 then cs else dropWhile is_digit cs);
                    (fr, s3) = match_fraction s2;
                    (ex, s4) = match_exponent s3
                in Some (fr \<noteq> [] \<or> ex \<noteq> [], sg @ ip @ fr @ ex, s4)))"

text \<open>\<open>int(s)\<close> on a literal of the grammar without fraction and exponent.\<close>

definition nat_of_digits :: "pystr \<Rightarrow> nat" where
  "nat_of_digits ds = foldl (\<lambda>a d. 10 * a + (d - 48)) 0 ds"

definition int_of_str :: "pystr \<Rightarrow> int" where
  "int_of_str s =
     (case s of
        [] \<Rightarrow> 0
      | c # cs \<Rightarrow> if c = 45 then - int (nat_of_digits cs) else int (nat_of_digits s))"

definition starts_with :: "pystr \<Rightarrow> pystr \<Rightarrow> bool" where
  "starts_with p s = (take (length p) s = p)"

text \<open>
  The scanner.  Its calls nest, and the first argument bounds the nesting: between two
  calls at most two levels are used for each character consumed, so \<open>json_loads\<close>
  starts it above twice the length of the input, where the bound no longer changes the
  result.  (The interpreter's own recursion limit is not modelled.)
\<close>

fun scan_once :: "('f) float_ops \<Rightarrow> nat \<Rightarrow> pystr \<Rightarrow> ('f json \<times> pystr) option"
  and parse_array :: "('f) float_ops \<Rightarrow> nat \<Rightarrow> pystr \<Rightarrow> ('f json list \<times> pystr) option"
  and parse_object ::
    "('f) float_ops \<Rightarrow> nat \<Rightarrow> (pystr, 'f json) pydict \<Rightarrow> pystr
      \<Rightarrow> ((pystr, 'f json) pydict \<times> pystr) option"
  where
  "scan_once fo 0 s = None"
| "scan_once fo (Suc n) s =
     (case s of
        [] \<Rightarrow> None
      | c # cs \<Rightarrow>
          if c = 34 then map_option (\<lambda>(x, rest). (JStr x, rest)) (scanstring cs)
          else if c = 123 then
            (case skip_ws cs of
               [] \<Rightarrow> None
             | d # ds \<Rightarrow>
                 if d = 125 then Some (JObj [], ds)
                 else map_option (\<lambda>(kvs, rest). (JObj kvs, rest))
                        (parse_object fo n [] (d # ds)))
          else if c = 91 then
            (case skip_ws cs of
               [] \<Rightarrow> None
             | d # ds \<Rightarrow>
                 if d = 93 then Some (JArr [], ds)
                 else map_option (\<lambda>(xs, rest). (JArr xs, rest)) (parse_array fo n (d # ds)))
          else if starts_with (str ''null'') s then Some (JNull, drop 4 s)
          else if starts_with (str ''true'') s then Some (JBool True, drop 4 s)
          else if starts_with (str ''false'') s then Some (JBool False, drop 5 s)
          else if starts_with (str ''NaN'') s
            then Some (JFloat (float_of_str fo (str ''NaN'')), drop 3 s)
          else if starts_with (str ''Infinity'') s
            then Some (JFloat (float_of_str fo (str ''Infinity'')), drop 8 s)
          else if starts_with (str ''-Infinity'') s
            then Some (JFloat (float_of_str fo (str ''-Infinity'')), drop 9 s)
          else
            (case match_number s of
               None \<Rightarrow> None
             | Some (is_float, lit, rest) \<Rightarrow>
                 if is_float then Some (JFloat (float_of_str fo lit), rest)
                 else Some (JInt (int_of_str lit), rest)))"
| "parse_array fo 0 s = None"
| "parse_array fo (Suc n) s =
     (case scan_once fo n s of
        None \<Rightarrow> None
      | Some (x, rest) \<Rightarrow>
          (case skip_ws rest of
             [] \<Rightarrow> None
           | d # ds \<Rightarrow>
               if d = 93 then Some ([x], ds)
               else if d = 44 then
                 map_option (\<lambda>(xs, rest'). (x # xs, rest')) (parse_array fo n (skip_ws ds))
               else None))"
| "parse_object fo 0 acc s = None"
| "parse_object fo (Suc n) acc s =
     (case s of
        [] \<Rightarrow> None
      | q # s1 \<Rightarrow>
          if q \<noteq> 34 then None
          else
            (case scanstring s1 of
               None \<Rightarrow> None
             | Some (key, s2) \<Rightarrow>
                 (case skip_ws s2 of
                    [] \<Rightarrow> None
                  | c # s3 \<Rightarrow>
                      if c \<noteq> 58 then None
                      else
                        (case scan_once fo n (skip_ws s3) of
                           None \<Rightarrow> None
                         | Some (v, s4) \<Rightarrow>
                             (let acc' = dict_setitem acc key v
                              in case skip_ws s4 of
                                   [] \<Rightarrow> None
                                 | d # ds \<Rightarrow>
                                     if d = 125 then Some (acc', ds)
                                     else if d = 44
                                       then parse_object fo n acc' (skip_ws ds)
                                     else None)))))"

text \<open>
  \<open>json.loads\<close>: leading whitespace, one value, trailing whitespace, and nothing else;
  anything else raises \<open>JSONDecodeError\<close>.
\<close>

definition json_loads :: "'f float_ops \<Rightarrow> pystr \<Rightarrow> py_error + 'f json" where
  "json_loads fo s =
     (case scan_once fo (Suc (2 * length s)) (skip_ws s) of
        None \<Rightarrow> Inl JSONDecodeError
      | Some (obj, rest) \<Rightarrow> if skip_ws rest = [] then Inr obj else Inl JSONDecodeError)"


section \<open>The report generator\<close>

record 'n patient_info =
  age :: 'n
  height :: 'n
  weight :: 'n

text \<open>The fixed text of the prompt template (lines 43 to 71), between its fields.\<close>

definition prompt_intro :: pystr where
  "prompt_intro =
     [10] @
     str ''    You are an AI physiotherapy assistant. Your task is to analyze a patient'' @
     [39] @ str ''s movement based on RMSE metrics,'' @ [10] @
     str ''    patient information, and an overlay skeleton animation. Use logical reasoning and a step-by-step chain-of-thought approach to provide corrective feedback and suggestions.'' @
     [10] @ [10] @ str ''    **Patient Information:**'' @ [10] @ str ''    - Age: ''"

definition prompt_outro :: pystr where
  "prompt_outro =
     [10] @ [10] @ str ''    **Overlay Skeleton Animation:**  '' @ [10] @
     str ''    The animation is provided as an image input below.'' @ [10] @ [10] @
     str ''    **Step-by-Step Analysis:**'' @ [10] @
     str ''    1. Identify which keypoints have the highest RMSE values and explain their implications.'' @
     [10] @ str ''    2. Correlate these values with common physiotherapy movement errors.'' @
     [10] @ str ''    3. Provide explanations for these errors based on biomechanics.'' @
     [10] @ str ''    4. Suggest specific corrective actions the patient can take.'' @ [10] @
     str ''    5. Adjust your recommendations based on the patient'' @ [8217] @
     str ''s demographics.'' @ [10] @ [10] @ str ''    **Feedback Report:**'' @ [10] @
     str ''    Provide a detailed, structured report using the above reasoning.'' @ [10] @
     str ''    ''"

text \<open>Line 53: \<open>", ".join([f"{k}: {v:.4f}" for k, v in rmse_metrics['3D_RMSE'].items()])\<close>.\<close>

definition rmse_3d_text :: "(pystr, pyfloat) pydict \<Rightarrow> pystr" where
  "rmse_3d_text d = join (str '', '') (map (\<lambda>(k, v). k @ str '': '' @ format_f 4 v) d)"

text \<open>
  The prompt.  The patient's attributes are interpolated without a format, that is with
  \<open>format(x, '')\<close>; \<open>fmt\<close> is that function on the caller's number type.
\<close>

definition build_prompt ::
  "('n \<Rightarrow> pystr) \<Rightarrow> 'n patient_info \<Rightarrow> pyfloat rmse_metrics \<Rightarrow> pystr" where
  "build_prompt fmt patient rmse =
     prompt_intro @ fmt (age patient)
     @ str '' years'' @ [10] @ str ''    - Height: '' @ fmt (height patient)
     @ str '' cm'' @ [10] @ str ''    - Weight: '' @ fmt (weight patient)
     @ str '' kg'' @ [10] @ [10] @ str ''    **3D RMSE for Selected Keypoints:**'' @ [10] @ str ''    ''
     @ rmse_3d_text (positional_rmse rmse)
     @ [10] @ [10] @ str ''    **Angle RMSE:**'' @ [10] @ str ''    - Knee Angle RMSE: ''
     @ format_f 2 (knee_angle_rmse rmse)
     @ [176] @ [10] @ str ''    - Hip Abduction Angle RMSE: ''
     @ format_f 2 (hip_abduction_angle_rmse rmse)
     @ [176] @ prompt_outro"

text \<open>Lines 87 to 106: the output schema.\<close>

definition string_type :: "'f json" where
  "string_type = JObj [(str ''type'', JStr (str ''string''))]"

definition schema :: "'f json" where
  "schema =
     JObj [(str ''type'', JStr (str ''object'')),
           (str ''properties'',
            JObj [(str ''steps'',
                   JObj [(str ''type'', JStr (str ''array'')),
                         (str ''items'',
                          JObj [(str ''type'', JStr (str ''object'')),
                                (str ''properties'',
                                 JObj [(str ''explanation'', string_type),
                                       (str ''suggestion'', string_type)]),
                                (str ''required'',
                                 JArr [JStr (str ''explanation''), JStr (str ''suggestion'')]),
                                (str ''additionalProperties'', JBool False)])]),
                  (str ''final_report'', string_type)]),
           (str ''required'', JArr [JStr (str ''steps''), JStr (str ''final_report'')]),
           (str ''additionalProperties'', JBool False)]"

text \<open>Lines 109 to 130: the request sent to the inference endpoint.\<close>

record 'f request =
  model :: pystr
  system_content :: pystr
  input_text :: pystr
  input_image :: pystr
  format_name :: pystr
  format_schema :: "'f json"
  format_strict :: bool
  max_output_tokens :: nat

definition physio_request :: "pystr \<Rightarrow> pystr \<Rightarrow> 'f request" where
  "physio_request prompt gif_s3_url =
     \<lparr>model = str ''gpt-4o-2024-08-06'',
      system_content =
        str ''You are an expert physiotherapist providing AI-driven motion correction insights.'',
      input_text = prompt,
      input_image = gif_s3_url,
      format_name = str ''physio_feedback'',
      format_schema = schema,
      format_strict = True,
      max_output_tokens = 1000\<rparr>"

text \<open>
  The collaborators: the inference endpoint returns \<open>response.output_text\<close> or raises;
  the temporary file is created and written, which gives its name, or raises; the upload
  succeeds or raises.
\<close>

record 'f services =
  responses_create :: "'f request \<Rightarrow> py_error + pystr"
  temp_file :: "pystr \<Rightarrow> py_error + pystr"
  upload_file :: "pystr \<Rightarrow> pystr \<Rightarrow> pystr \<Rightarrow> py_error option"

datatype 'f effect =
    ResponsesCreate "'f request"
  | TempFileWrite pystr
  | UploadFile pystr pystr pystr
  | Print pystr

record 'f report_artifact =
  prompt :: pystr
  report_dict :: "'f json"
  report_json :: pystr
  report_s3_path :: pystr

definition s3_uri :: "pystr \<Rightarrow> pystr \<Rightarrow> pystr" where
  "s3_uri bucket_name path = str ''s3://'' @ bucket_name @ str ''/'' @ path"

text \<open>
  Lines 30 to 151.  Each effect is recorded when it is attempted.  Line 138 passes
  \<open>physio_feedback\<close>, which is already the JSON text of the report, to \<open>json.dump\<close>: the
  file holds the encoding of that string.
\<close>

definition generate_physio_report ::
  "('n \<Rightarrow> pystr) \<Rightarrow> 'f float_ops \<Rightarrow> 'f services \<Rightarrow> 'n patient_info \<Rightarrow> pyfloat rmse_metrics
     \<Rightarrow> pystr \<Rightarrow> pystr \<Rightarrow> pystr \<Rightarrow> (py_error + 'f report_artifact) \<times> 'f effect list" where
  "generate_physio_report fmt fo sv patient rmse gif_s3_url bucket_name path =
     (let prompt_text = build_prompt fmt patient rmse;
          req = physio_request prompt_text gif_s3_url
      in case responses_create sv req of
           Inl e \<Rightarrow> (Inl e, [ResponsesCreate req])
         | Inr output_text \<Rightarrow>
             (case json_loads fo output_text of
                Inl e \<Rightarrow> (Inl e, [ResponsesCreate req])
              | Inr report \<Rightarrow>
                  (let physio_feedback = json_dumps fo report;
                       file_text = json_dumps fo (JStr physio_feedback)
                   in case temp_file sv file_text of
                        Inl e \<Rightarrow> (Inl e, [ResponsesCreate req, TempFileWrite file_text])
                      | Inr temp_path \<Rightarrow>
                          (case upload_file sv temp_path bucket_name path of
                             Some e \<Rightarrow>
                               (Inl e, [ResponsesCreate req, TempFileWrite file_text,
                                        UploadFile temp_path bucket_name path])
                           | None \<Rightarrow>
                               (Inr \<lparr>prompt = prompt_text, report_dict = report,
                                     report_json = physio_feedback,
                                     report_s3_path = s3_uri bucket_name path\<rparr>,
                                [ResponsesCreate req, TempFileWrite file_text,
                                 UploadFile temp_path bucket_name path,
                                 Print (str ''[LLM] Physiotherapy Generated report uploaded to ''
                                        @ s3_uri bucket_name path)])))))"

text \<open>The file that an invocation wrote, and whether it attempted an upload.\<close>

fun written_text :: "'f effect list \<Rightarrow> pystr option" where
  "written_text [] = None"
| "written_text (TempFileWrite t # es) = Some t"
| "written_text (_ # es) = written_text es"


text \<open>Floats do not occur in the examples: a float type with one value.\<close>

definition no_floats :: "unit float_ops" where
  "no_floats = \<lparr>float_of_str = (\<lambda>_. ()), float_repr = (\<lambda>_. str ''0.0'')\<rparr>"

text \<open>Collaborators that answer \<open>text\<close> and store the file as \<open>/tmp/tmpreport.json\<close>.\<close>

definition answering :: "pystr \<Rightarrow> 'f services" where
  "answering text =
     \<lparr>responses_create = (\<lambda>_. Inr text),
      temp_file = (\<lambda>_. Inr (str ''/tmp/tmpreport.json'')),
      upload_file = (\<lambda>_ _ _. None)\<rparr>"

definition example_patient :: "int patient_info" where
  "example_patient = \<lparr>age = 30, height = 175, weight = 70\<rparr>"

definition example_metrics :: "pyfloat rmse_metrics" where
  "example_metrics =
     \<lparr>positional_rmse = [(str ''LEFT_WRIST'', Finite 0.0812)],
      knee_angle_rmse = Finite 5.123, hip_abduction_angle_rmse = Finite 3.456\<rparr>"


text \<open>The text \<open>{"steps": [], "final_report": "OK"}\<close>.\<close>

definition ok_response :: pystr where
  "ok_response =
     str ''{'' @ [34] @ str ''steps'' @ [34] @ str '': [], '' @ [34] @ str ''final_report'' @ [34]
     @ str '': '' @ [34] @ str ''OK'' @ [34] @ str ''}''"

definition ok_report :: "unit json" where
  "ok_report = JObj [(str ''steps'', JArr []), (str ''final_report'', JStr (str ''OK''))]"


section \<open>Well-formed JSON values\<close>

text \<open>
  Well-formed strings: every element is a code point, and no high surrogate is directly
  followed by a low surrogate (the encoder would write such a pair as the escapes of one
  character above the basic plane).
\<close>

fun no_surrogate_pair :: "pystr \<Rightarrow> bool" where
  "no_surrogate_pair (a # b # cs) =
     (\<not> (is_high_surrogate a \<and> is_low_surrogate b) \<and> no_surrogate_pair (b # cs))"
| "no_surrogate_pair _ = True"

definition valid_str :: "pystr \<Rightarrow> bool" where
  "valid_str s = (list_all (\<lambda>c. c < 1114112) s \<and> no_surrogate_pair s)"



fun float_free :: "'f json \<Rightarrow> bool" where
  "float_free (JFloat x) = False"
| "float_free (JArr xs) = list_all float_free xs"
| "float_free (JObj kvs) = list_all (\<lambda>kv. float_free (snd kv)) kvs"
| "float_free _ = True"

text \<open>
  The texts the decoder reads as a float, and the values whose floats the encoder writes
  as such a text that \<open>float\<close> reads back as the same float (Python's \<open>repr\<close> does so for
  every float; a NaN reads back as a NaN).
\<close>

definition float_literal :: "pystr \<Rightarrow> bool" where
  "float_literal s =
     (s = str ''NaN'' \<or> s = str ''Infinity'' \<or> s = str ''-Infinity''
      \<or> match_number s = Some (True, s, []))"

fun floats_ok :: "'f float_ops \<Rightarrow> 'f json \<Rightarrow> bool" where
  "floats_ok fo (JFloat x) =
     (float_literal (float_repr fo x) \<and> float_of_str fo (float_repr fo x) = x)"
| "floats_ok fo (JArr xs) = list_all (floats_ok fo) xs"
| "floats_ok fo (JObj kvs) = list_all (\<lambda>kv. floats_ok fo (snd kv)) kvs"
| "floats_ok fo _ = True"

fun wf_json :: "'f json \<Rightarrow> bool" where
  "wf_json (JStr s) = valid_str s"
| "wf_json (JArr xs) = list_all wf_json xs"
| "wf_json (JObj kvs) =
     (distinct (map fst kvs) \<and> list_all (\<lambda>kv. valid_str (fst kv) \<and> wf_json (snd kv)) kvs)"
| "wf_json _ = True"




section \<open>Facts about strings and dicts\<close>


lemma dict_setitem_keys:
  "fst ` set (dict_setitem d k v) = insert k (fst ` set d)"
  by (induction d) auto

lemma dict_setitem_map_of:
  "map_of (dict_setitem d k v) = (map_of d)(k \<mapsto> v)"
  by (induction d) (auto simp: fun_eq_iff)

lemma dict_setitem_distinct:
  "distinct (map fst d) \<Longrightarrow> distinct (map fst (dict_setitem d k v))"
  by (induction d) (auto simp: dict_setitem_keys)

lemma rmse_3d_keys:
  "fst ` set (rmse_3d d df) = fst ` set d \<union> {k \<in> fst ` set df. \<not> py_in ANGLE k}"
  by (induction df arbitrary: d) (auto simp: dict_setitem_keys)

lemma rmse_3d_distinct:
  "distinct (map fst d) \<Longrightarrow> distinct (map fst (rmse_3d d df))"
  by (induction df arbitrary: d) (auto simp: dict_setitem_distinct)

lemma rmse_3d_absent:
  "k \<notin> fst ` set df \<Longrightarrow> map_of (rmse_3d d df) k = map_of d k"
  by (induction df arbitrary: d) (auto simp: dict_setitem_map_of)

lemma rmse_3d_append:
  "rmse_3d d (df1 @ df2) = rmse_3d (rmse_3d d df1) df2"
  by (induction df1 arbitrary: d) auto

lemma fetch_on_table:
  "fetch_rmse_metrics_from_snowflake (table_warehouse df) t =
     (build_rmse_metrics df, [ConnOpen, ReadSql (query_text t), ConnClose])"
  by (simp add: fetch_rmse_metrics_from_snowflake_def table_warehouse_def)

lemma rmse_of_name_first:
  "name \<notin> fst ` set pre \<Longrightarrow> rmse_of_name name (pre @ (name, v) # post) = Inr v"
proof -
  assume "name \<notin> fst ` set pre"
  then have "filter (\<lambda>row. fst row = name) pre = []"
    by (auto simp: filter_empty_conv)
  then show ?thesis by (simp add: rmse_of_name_def)
qed

lemma rmse_of_name_none:
  "name \<notin> fst ` set df \<Longrightarrow> rmse_of_name name df = Inl IndexError"
proof -
  assume "name \<notin> fst ` set df"
  then have "filter (\<lambda>row. fst row = name) df = []"
    by (auto simp: filter_empty_conv)
  then show ?thesis by (simp add: rmse_of_name_def)
qed

lemma rmse_of_name_some:
  "name \<in> fst ` set df \<Longrightarrow> \<exists>v. rmse_of_name name df = Inr v"
proof -
  assume "name \<in> fst ` set df"
  then have "filter (\<lambda>row. fst row = name) df \<noteq> []"
    by (auto simp: filter_empty_conv)
  then show ?thesis by (auto simp: rmse_of_name_def split: list.splits)
qed


section \<open>The metrics fetcher: properties\<close>

lemma fetch_returns:
  assumes "connect_snowflake wh = None" and "read_sql wh (query_text t) = Inr df"
  shows "fetch_rmse_metrics_from_snowflake wh t =
     (build_rmse_metrics df, [ConnOpen, ReadSql (query_text t), ConnClose])"
  using assms by (simp add: fetch_rmse_metrics_from_snowflake_def)

lemmas name_defs = KNEE_ANGLE_def HIP_ABDUCTION_ANGLE_def ANGLE_def str_def

lemma table_warehouse_simps:
  "connect_snowflake (table_warehouse df) = None"
  "read_sql (table_warehouse df) q = Inr df"
  by (simp_all add: table_warehouse_def)

text \<open>
  Claim C1.  When the table returned by the query has exactly one row named
  \<open>KNEE_ANGLE\<close> and exactly one row named \<open>HIP_ABDUCTION_ANGLE\<close>, the call returns
  a summary whose two angle fields are the RMSE values of those rows, and whose
  positional part is the dict built from the rows.  On the rows of the spec's
  scenario the summary is the one the spec gives (the witness).
\<close>

theorem angle_fields_exact:
  assumes "connect_snowflake wh = None"
    and "read_sql wh (query_text t) = Inr df"
    and "filter (\<lambda>row. fst row = KNEE_ANGLE) df = [(KNEE_ANGLE, a)]"
    and "filter (\<lambda>row. fst row = HIP_ABDUCTION_ANGLE) df = [(HIP_ABDUCTION_ANGLE, b)]"
  shows "fst (fetch_rmse_metrics_from_snowflake wh t) =
     Inr \<lparr>positional_rmse = rmse_3d [] df, knee_angle_rmse = a,
          hip_abduction_angle_rmse = b\<rparr>"
  using assms by (simp add: fetch_returns build_rmse_metrics_def rmse_of_name_def)

theorem angle_fields_exact_witness:
  "connect_snowflake (table_warehouse example_table) = None
   \<and> read_sql (table_warehouse example_table) (query_text default_table_name) = Inr example_table
   \<and> filter (\<lambda>row. fst row = KNEE_ANGLE) example_table = [(KNEE_ANGLE, Finite 5.123)]
   \<and> filter (\<lambda>row. fst row = HIP_ABDUCTION_ANGLE) example_table
        = [(HIP_ABDUCTION_ANGLE, Finite 3.456)]
   \<and> fst (fetch_rmse_metrics_from_snowflake (table_warehouse example_table) default_table_name) =
       Inr \<lparr>positional_rmse = [(str ''LEFT_WRIST'', Finite 0.0812)],
            knee_angle_rmse = Finite 5.123, hip_abduction_angle_rmse = Finite 3.456\<rparr>"
proof -
  have k: "filter (\<lambda>row. fst row = KNEE_ANGLE) example_table = [(KNEE_ANGLE, Finite 5.123)]"
    by (simp add: example_table_def name_defs)
  have h: "filter (\<lambda>row. fst row = HIP_ABDUCTION_ANGLE) example_table
      = [(HIP_ABDUCTION_ANGLE, Finite 3.456)]"
    by (simp add: example_table_def name_defs)
  have p: "rmse_3d [] example_table = [(str ''LEFT_WRIST'', Finite 0.0812)]"
    by (simp add: example_table_def name_defs)
  from angle_fields_exact [OF table_warehouse_simps(1) table_warehouse_simps(2) k h] p k h
  show ?thesis by (simp add: table_warehouse_simps)
qed

text \<open>
  Claim C2.  In the summary that a call returns, a row of the query result is a key of
  \<open>positional_rmse\<close> exactly when its name does not contain \<open>"ANGLE"\<close>: the rows with
  the marker never appear, the others always do.
\<close>

theorem positional_keys:
  assumes "connect_snowflake wh = None"
    and "read_sql wh (query_text t) = Inr df"
    and "fst (fetch_rmse_metrics_from_snowflake wh t) = Inr m"
  shows "\<forall>row \<in> set df.
     (fst row \<in> set (dict_keys (positional_rmse m))) = (\<not> py_in ANGLE (fst row))"
proof -
  from assms have "build_rmse_metrics df = Inr m" by (simp add: fetch_returns)
  then have "positional_rmse m = rmse_3d [] df"
    by (auto simp: build_rmse_metrics_def split: sum.splits)
  then have "set (dict_keys (positional_rmse m)) = {k \<in> fst ` set df. \<not> py_in ANGLE k}"
    by (simp add: dict_keys_def rmse_3d_keys)
  then show ?thesis by auto
qed

theorem positional_keys_witness:
  "connect_snowflake (table_warehouse example_table) = None
   \<and> read_sql (table_warehouse example_table) (query_text default_table_name) = Inr example_table
   \<and> fst (fetch_rmse_metrics_from_snowflake (table_warehouse example_table) default_table_name)
       = Inr \<lparr>positional_rmse = [(str ''LEFT_WRIST'', Finite 0.0812)],
            knee_angle_rmse = Finite 5.123, hip_abduction_angle_rmse = Finite 3.456\<rparr>
   \<and> py_in ANGLE KNEE_ANGLE
   \<and> KNEE_ANGLE \<notin> set (dict_keys [(str ''LEFT_WRIST'', Finite 0.0812 :: pyfloat)])
   \<and> py_in ANGLE HIP_ABDUCTION_ANGLE
   \<and> HIP_ABDUCTION_ANGLE \<notin> set (dict_keys [(str ''LEFT_WRIST'', Finite 0.0812 :: pyfloat)])
   \<and> \<not> py_in ANGLE (str ''LEFT_WRIST'')
   \<and> str ''LEFT_WRIST'' \<in> set (dict_keys [(str ''LEFT_WRIST'', Finite 0.0812 :: pyfloat)])"
proof -
  have f: "fst (fetch_rmse_metrics_from_snowflake (table_warehouse example_table)
      default_table_name) = Inr \<lparr>positional_rmse = [(str ''LEFT_WRIST'', Finite 0.0812)],
            knee_angle_rmse = Finite 5.123, hip_abduction_angle_rmse = Finite 3.456\<rparr>"
    by (simp add: fetch_on_table build_rmse_metrics_def rmse_of_name_def example_table_def
        name_defs)
  have a: "py_in ANGLE KNEE_ANGLE \<and> py_in ANGLE HIP_ABDUCTION_ANGLE
      \<and> \<not> py_in ANGLE (str ''LEFT_WRIST'')"
    by (simp add: name_defs)
  from positional_keys [OF table_warehouse_simps(1) table_warehouse_simps(2) f] f a
  show ?thesis by (simp add: table_warehouse_simps example_table_def)
qed

text \<open>
  Claim C3.  When the query result has no row named \<open>KNEE_ANGLE\<close>, or no row named
  \<open>HIP_ABDUCTION_ANGLE\<close>, the call raises \<open>IndexError\<close>, which is a \<open>LookupError\<close>, and
  so returns no summary.
\<close>

theorem missing_angle_row_raises:
  assumes "connect_snowflake wh = None"
    and "read_sql wh (query_text t) = Inr df"
    and "KNEE_ANGLE \<notin> fst ` set df \<or> HIP_ABDUCTION_ANGLE \<notin> fst ` set df"
  shows "fst (fetch_rmse_metrics_from_snowflake wh t) = Inl IndexError
     \<and> is_LookupError IndexError"
proof (cases "KNEE_ANGLE \<in> fst ` set df")
  case False
  then show ?thesis using assms
    by (simp add: fetch_returns build_rmse_metrics_def rmse_of_name_none)
next
  case True
  with assms(3) have "HIP_ABDUCTION_ANGLE \<notin> fst ` set df" by simp
  moreover from True obtain v where "rmse_of_name KNEE_ANGLE df = Inr v"
    using rmse_of_name_some by blast
  ultimately show ?thesis using assms
    by (simp add: fetch_returns build_rmse_metrics_def rmse_of_name_none)
qed

theorem missing_angle_row_raises_witness:
  "connect_snowflake (table_warehouse no_hip_table) = None
   \<and> read_sql (table_warehouse no_hip_table) (query_text default_table_name) = Inr no_hip_table
   \<and> HIP_ABDUCTION_ANGLE \<notin> fst ` set no_hip_table
   \<and> fst (fetch_rmse_metrics_from_snowflake (table_warehouse no_hip_table) default_table_name)
       = Inl IndexError
   \<and> is_LookupError IndexError"
proof -
  have n: "HIP_ABDUCTION_ANGLE \<notin> fst ` set no_hip_table"
    by (simp add: no_hip_table_def name_defs)
  then have h: "KNEE_ANGLE \<notin> fst ` set no_hip_table
      \<or> HIP_ABDUCTION_ANGLE \<notin> fst ` set no_hip_table" ..
  from missing_angle_row_raises [OF table_warehouse_simps(1) table_warehouse_simps(2) h] n
  show ?thesis by (simp add: table_warehouse_simps)
qed

text \<open>
  Claim C9.  Whatever follows it in the table, the first row named \<open>KNEE_ANGLE\<close> gives
  \<open>knee_angle_rmse\<close> and the first row named \<open>HIP_ABDUCTION_ANGLE\<close> gives
  \<open>hip_abduction_angle_rmse\<close>; later rows of the same name are ignored.
\<close>

theorem first_angle_row_wins:
  assumes "connect_snowflake wh = None"
    and "read_sql wh (query_text t) = Inr df"
    and "df = pre1 @ (KNEE_ANGLE, a) # post1"
    and "KNEE_ANGLE \<notin> fst ` set pre1"
    and "df = pre2 @ (HIP_ABDUCTION_ANGLE, b) # post2"
    and "HIP_ABDUCTION_ANGLE \<notin> fst ` set pre2"
  shows "\<exists>m. fst (fetch_rmse_metrics_from_snowflake wh t) = Inr m
     \<and> knee_angle_rmse m = a \<and> hip_abduction_angle_rmse m = b"
proof -
  have "rmse_of_name KNEE_ANGLE df = Inr a"
    using assms(3,4) by (simp add: rmse_of_name_first)
  moreover have "rmse_of_name HIP_ABDUCTION_ANGLE df = Inr b"
    using assms(5,6) by (simp add: rmse_of_name_first)
  ultimately show ?thesis using assms(1,2)
    by (simp add: fetch_returns build_rmse_metrics_def)
qed

theorem first_angle_row_wins_witness:
  "connect_snowflake (table_warehouse duplicates_table) = None
   \<and> read_sql (table_warehouse duplicates_table) (query_text default_table_name)
       = Inr duplicates_table
   \<and> duplicates_table = [(str ''LEFT_WRIST'', Finite 1)] @ (KNEE_ANGLE, Finite 2) #
        [(HIP_ABDUCTION_ANGLE, Finite 3), (KNEE_ANGLE, Finite 4), (str ''LEFT_WRIST'', Finite 5),
         (HIP_ABDUCTION_ANGLE, Finite 6)]
   \<and> KNEE_ANGLE \<notin> fst ` set [(str ''LEFT_WRIST'', Finite 1 :: pyfloat)]
   \<and> duplicates_table = [(str ''LEFT_WRIST'', Finite 1), (KNEE_ANGLE, Finite 2)] @
        (HIP_ABDUCTION_ANGLE, Finite 3) #
        [(KNEE_ANGLE, Finite 4), (str ''LEFT_WRIST'', Finite 5), (HIP_ABDUCTION_ANGLE, Finite 6)]
   \<and> HIP_ABDUCTION_ANGLE \<notin> fst ` set [(str ''LEFT_WRIST'', Finite 1 :: pyfloat),
         (KNEE_ANGLE, Finite 2)]
   \<and> (\<exists>m. fst (fetch_rmse_metrics_from_snowflake (table_warehouse duplicates_table)
              default_table_name) = Inr m
         \<and> knee_angle_rmse m = Finite 2 \<and> hip_abduction_angle_rmse m = Finite 3)"
proof -
  have k: "duplicates_table = [(str ''LEFT_WRIST'', Finite 1)] @ (KNEE_ANGLE, Finite 2) #
        [(HIP_ABDUCTION_ANGLE, Finite 3), (KNEE_ANGLE, Finite 4), (str ''LEFT_WRIST'', Finite 5),
         (HIP_ABDUCTION_ANGLE, Finite 6)]"
    by (simp add: duplicates_table_def)
  have k': "KNEE_ANGLE \<notin> fst ` set [(str ''LEFT_WRIST'', Finite 1 :: pyfloat)]"
    by (simp add: name_defs)
  have h: "duplicates_table = [(str ''LEFT_WRIST'', Finite 1), (KNEE_ANGLE, Finite 2)] @
        (HIP_ABDUCTION_ANGLE, Finite 3) #
        [(KNEE_ANGLE, Finite 4), (str ''LEFT_WRIST'', Finite 5), (HIP_ABDUCTION_ANGLE, Finite 6)]"
    by (simp add: duplicates_table_def)
  have h': "HIP_ABDUCTION_ANGLE \<notin> fst ` set [(str ''LEFT_WRIST'', Finite 1 :: pyfloat),
         (KNEE_ANGLE, Finite 2)]"
    by (simp add: name_defs)
  from first_angle_row_wins [OF table_warehouse_simps(1) table_warehouse_simps(2) k k' h h']
    k k' h h'
  show ?thesis by (simp only: table_warehouse_simps simp_thms)
qed

text \<open>
  Claim C10.  For a name without the marker, the last row of that name gives the value
  stored in \<open>positional_rmse\<close>; earlier rows of the same name are overwritten, the
  name is a key once, and the call returns a summary as soon as both angle rows exist.
\<close>

theorem last_positional_row_wins:
  assumes "connect_snowflake wh = None"
    and "read_sql wh (query_text t) = Inr df"
    and "df = pre @ (k, v) # post"
    and "\<not> py_in ANGLE k"
    and "k \<notin> fst ` set post"
    and "KNEE_ANGLE \<in> fst ` set df"
    and "HIP_ABDUCTION_ANGLE \<in> fst ` set df"
  shows "\<exists>m. fst (fetch_rmse_metrics_from_snowflake wh t) = Inr m
     \<and> dict_get (positional_rmse m) k = Some v
     \<and> distinct (dict_keys (positional_rmse m))"
proof -
  from assms(6) obtain a where a: "rmse_of_name KNEE_ANGLE df = Inr a"
    using rmse_of_name_some by blast
  from assms(7) obtain b where b: "rmse_of_name HIP_ABDUCTION_ANGLE df = Inr b"
    using rmse_of_name_some by blast
  from assms(5) have "map_of (rmse_3d [] df) k = Some v"
    using assms(3,4) by (simp add: rmse_3d_append rmse_3d_absent dict_setitem_map_of)
  moreover have "distinct (map fst (rmse_3d [] df))"
    by (simp add: rmse_3d_distinct)
  ultimately show ?thesis using assms(1,2) a b
    by (simp add: fetch_returns build_rmse_metrics_def dict_get_def dict_keys_def)
qed

theorem last_positional_row_wins_witness:
  "connect_snowflake (table_warehouse duplicates_table) = None
   \<and> read_sql (table_warehouse duplicates_table) (query_text default_table_name)
       = Inr duplicates_table
   \<and> duplicates_table = [(str ''LEFT_WRIST'', Finite 1), (KNEE_ANGLE, Finite 2),
         (HIP_ABDUCTION_ANGLE, Finite 3), (KNEE_ANGLE, Finite 4)] @
        (str ''LEFT_WRIST'', Finite 5) # [(HIP_ABDUCTION_ANGLE, Finite 6)]
   \<and> \<not> py_in ANGLE (str ''LEFT_WRIST'')
   \<and> str ''LEFT_WRIST'' \<notin> fst ` set [(HIP_ABDUCTION_ANGLE, Finite 6 :: pyfloat)]
   \<and> KNEE_ANGLE \<in> fst ` set duplicates_table
   \<and> HIP_ABDUCTION_ANGLE \<in> fst ` set duplicates_table
   \<and> (\<exists>m. fst (fetch_rmse_metrics_from_snowflake (table_warehouse duplicates_table)
              default_table_name) = Inr m
         \<and> dict_get (positional_rmse m) (str ''LEFT_WRIST'') = Some (Finite 5)
         \<and> distinct (dict_keys (positional_rmse m)))"
proof -
  have d: "duplicates_table = [(str ''LEFT_WRIST'', Finite 1), (KNEE_ANGLE, Finite 2),
         (HIP_ABDUCTION_ANGLE, Finite 3), (KNEE_ANGLE, Finite 4)] @
        (str ''LEFT_WRIST'', Finite 5) # [(HIP_ABDUCTION_ANGLE, Finite 6)]"
    by (simp add: duplicates_table_def)
  have n: "\<not> py_in ANGLE (str ''LEFT_WRIST'')"
    by (simp add: name_defs)
  have p: "str ''LEFT_WRIST'' \<notin> fst ` set [(HIP_ABDUCTION_ANGLE, Finite 6 :: pyfloat)]"
    by (simp add: name_defs)
  have k: "KNEE_ANGLE \<in> fst ` set duplicates_table"
    by (simp add: duplicates_table_def)
  have h: "HIP_ABDUCTION_ANGLE \<in> fst ` set duplicates_table"
    by (simp add: duplicates_table_def)
  from last_positional_row_wins
    [OF table_warehouse_simps(1) table_warehouse_simps(2) d n p k h] d n p k h
  show ?thesis by (simp only: table_warehouse_simps simp_thms)
qed

text \<open>
  Claim C4.  The claim is that the connection is closed on every exit path.  When
  \<open>pd.read_sql\<close> raises, the call ends with the exception and the connection it opened
  is still open: \<open>conn.close()\<close> is never reached.
\<close>

theorem query_failure_leaves_connection_open:
  "fetch_rmse_metrics_from_snowflake failing_warehouse t
     = (Inl ConnectivityError, [ConnOpen, ReadSql (query_text t)])
   \<and> connection_left_open (snd (fetch_rmse_metrics_from_snowflake failing_warehouse t))"
  by (simp add: fetch_rmse_metrics_from_snowflake_def failing_warehouse_def
      connection_left_open_def)

text \<open>On the paths where the query returns, the connection is closed.\<close>

lemma connection_closed_when_query_returns:
  assumes "connect_snowflake wh = None" and "read_sql wh (query_text t) = Inr df"
  shows "\<not> connection_left_open (snd (fetch_rmse_metrics_from_snowflake wh t))"
  using assms by (simp add: fetch_returns connection_left_open_def)


section \<open>Number formatting: properties\<close>









section \<open>The report generator: properties\<close>

lemma generate_returns:
  assumes "responses_create sv (physio_request (build_prompt fmt patient rmse) url) = Inr output_text"
    and "json_loads fo output_text = Inr report"
    and "temp_file sv (json_dumps fo (JStr (json_dumps fo report))) = Inr temp_path"
    and "upload_file sv temp_path bucket path = None"
  shows "generate_physio_report fmt fo sv patient rmse url bucket path =
     (Inr \<lparr>prompt = build_prompt fmt patient rmse, report_dict = report,
           report_json = json_dumps fo report, report_s3_path = s3_uri bucket path\<rparr>,
      [ResponsesCreate (physio_request (build_prompt fmt patient rmse) url),
       TempFileWrite (json_dumps fo (JStr (json_dumps fo report))),
       UploadFile temp_path bucket path,
       Print (str ''[LLM] Physiotherapy Generated report uploaded to '' @ s3_uri bucket path)])"
  using assms by (simp add: generate_physio_report_def Let_def)


lemma answering_simps:
  "responses_create (answering text) req = Inr text"
  "temp_file (answering text) t = Inr (str ''/tmp/tmpreport.json'')"
  "upload_file (answering text) tp b k = None"
  by (simp_all add: answering_def)

lemma loads_ok_response: "json_loads no_floats ok_response = Inr ok_report"
  by code_simp

lemma loads_ok_file:
  "json_loads no_floats (json_dumps no_floats (JStr (json_dumps no_floats ok_report)))
     = Inr (JStr (json_dumps no_floats ok_report))"
  by code_simp




text \<open>
  Claim C5.  The claim is that the text written to the file and uploaded parses to the
  report.  For the response \<open>{"steps": [], "final_report": "OK"}\<close> the call succeeds, and
  the text it wrote parses to a string, the JSON text of the report, not to the report:
  line 138 encodes \<open>physio_feedback\<close>, which line 134 has already encoded.
\<close>

theorem written_file_parses_to_a_string:
  "fst (generate_physio_report str_int no_floats (answering ok_response) example_patient
        example_metrics (str ''s3://gifs/a.gif'') (str ''reports'') (str ''r/1.json''))
     = Inr \<lparr>prompt = build_prompt str_int example_patient example_metrics,
            report_dict = ok_report, report_json = json_dumps no_floats ok_report,
            report_s3_path = s3_uri (str ''reports'') (str ''r/1.json'')\<rparr>
   \<and> written_text (snd (generate_physio_report str_int no_floats (answering ok_response)
        example_patient example_metrics (str ''s3://gifs/a.gif'') (str ''reports'')
        (str ''r/1.json'')))
     = Some (json_dumps no_floats (JStr (json_dumps no_floats ok_report)))
   \<and> json_loads no_floats (json_dumps no_floats (JStr (json_dumps no_floats ok_report)))
     = Inr (JStr (json_dumps no_floats ok_report))
   \<and> json_loads no_floats (json_dumps no_floats (JStr (json_dumps no_floats ok_report)))
     \<noteq> Inr ok_report"
proof -
  have "JStr (json_dumps no_floats ok_report) \<noteq> ok_report"
    by (simp add: ok_report_def)
  then show ?thesis
    using generate_returns [OF answering_simps(1) loads_ok_response answering_simps(2)
        answering_simps(3), of str_int example_patient example_metrics "str ''s3://gifs/a.gif''"
        "str ''reports''" "str ''r/1.json''"]
    by (simp add: loads_ok_file)
qed






section \<open>Strings: decoding what the encoder wrote\<close>




declare scanstring.simps [simp del]

lemma scanstring_quote: "scanstring (34 # cs) = Some ([], cs)"
  by (subst scanstring.simps) simp


lemma scanstring_simple:
  "simple_escape e = Some d \<Longrightarrow> e \<noteq> 117 \<Longrightarrow>
   scanstring (92 # e # es) = cons_char d (scanstring es)"
  by (subst scanstring.simps) simp

lemma scanstring_u:
  "hex4_val x1 x2 x3 x4 = Some n \<Longrightarrow> \<not> is_high_surrogate n \<Longrightarrow>
   scanstring (92 # 117 # x1 # x2 # x3 # x4 # rest) = cons_char n (scanstring rest)"
  by (subst scanstring.simps) simp

lemma scanstring_u_alone:
  "hex4_val x1 x2 x3 x4 = Some n \<Longrightarrow> low_escape rest = None \<Longrightarrow>
   scanstring (92 # 117 # x1 # x2 # x3 # x4 # rest) = cons_char n (scanstring rest)"
  by (subst scanstring.simps) (auto split: list.splits)

lemma low_escape_SomeD:
  "low_escape s = Some (m, r) \<Longrightarrow>
   \<exists>x1 x2 x3 x4. s = 92 # 117 # x1 # x2 # x3 # x4 # r \<and> hex4_val x1 x2 x3 x4 = Some m
     \<and> is_low_surrogate m"
  by (auto simp: low_escape_def split: list.splits if_splits option.splits)

lemma scanstring_u_pair:
  assumes "hex4_val x1 x2 x3 x4 = Some n" and "is_high_surrogate n"
    and "low_escape rest = Some (m, rest2)"
  shows "scanstring (92 # 117 # x1 # x2 # x3 # x4 # rest)
     = cons_char (join_surrogates n m) (scanstring rest2)"
proof -
  from assms(3) obtain y1 y2 y3 y4 where "rest = 92 # 117 # y1 # y2 # y3 # y4 # rest2"
    using low_escape_SomeD by blast
  with assms show ?thesis by (subst scanstring.simps) simp
qed

lemma cons_char_Some [simp]: "cons_char c (Some (s, r)) = Some (c # s, r)"
  by (simp add: cons_char_def)









section \<open>Integers: decoding what the encoder wrote\<close>













section \<open>Values: decoding what the encoder wrote\<close>

declare scan_once.simps [simp del] parse_array.simps [simp del] parse_object.simps [simp del]








section \<open>Float literals: decoding what the encoder wrote\<close>




























section \<open>What the decoder returns\<close>





lemma cons_char_SomeD:
  "cons_char c r = Some (out, rest) \<Longrightarrow> \<exists>out'. r = Some (out', rest) \<and> out = c # out'"
  by (auto simp: cons_char_def)

text \<open>The ways in which \<open>scanstring\<close> returns a string.\<close>

lemma scanstring_cases:
  assumes "scanstring s = Some (out, rest)"
  obtains (quote) cs where "s = 34 # cs" "out = []" "rest = cs"
    | (plain) c cs out' where "s = c # cs" "c \<noteq> 34" "c \<noteq> 92" "32 \<le> c"
        "scanstring cs = Some (out', rest)" "out = c # out'"
    | (simple) e es d out' where "s = 92 # e # es" "simple_escape e = Some d"
        "scanstring es = Some (out', rest)" "out = d # out'"
    | (single) x1 x2 x3 x4 r n out' where "s = 92 # 117 # x1 # x2 # x3 # x4 # r"
        "hex4_val x1 x2 x3 x4 = Some n" "is_high_surrogate n \<longrightarrow> low_escape r = None"
        "scanstring r = Some (out', rest)" "out = n # out'"
    | (pair) x1 x2 x3 x4 r n m r2 out' where "s = 92 # 117 # x1 # x2 # x3 # x4 # r"
        "hex4_val x1 x2 x3 x4 = Some n" "is_high_surrogate n" "low_escape r = Some (m, r2)"
        "scanstring r2 = Some (out', rest)" "out = join_surrogates n m # out'"
proof (cases s)
  case Nil
  with assms show ?thesis by (simp add: scanstring.simps)
next
  case (Cons c cs)
  show ?thesis
  proof (cases "c = 34")
    case True
    with assms Cons quote show ?thesis by (simp add: scanstring_quote)
  next
    case n34: False
    show ?thesis
    proof (cases "c = 92")
      case False
      with assms Cons n34 have "32 \<le> c" "cons_char c (scanstring cs) = Some (out, rest)"
        by (auto simp: scanstring.simps split: if_splits)
      with Cons n34 False plain show ?thesis by (auto dest: cons_char_SomeD)
    next
      case True
      with assms Cons obtain e es where cs: "cs = e # es"
        by (cases cs) (auto simp: scanstring.simps)
      show ?thesis
      proof (cases "e = 117")
        case False
        with assms Cons True cs obtain d where d: "simple_escape e = Some d"
          by (cases "simple_escape e") (auto simp: scanstring.simps)
        with assms Cons True cs False have "cons_char d (scanstring es) = Some (out, rest)"
          by (simp add: scanstring_simple)
        with Cons True cs d simple show ?thesis by (auto dest: cons_char_SomeD)
      next
        case u: True
        from assms Cons True cs u have a: "scanstring (92 # 117 # es) = Some (out, rest)"
          by simp
        then obtain x1 x2 x3 x4 r where es: "es = x1 # x2 # x3 # x4 # r"
          by (subst (asm) scanstring.simps) (auto split: list.splits)
        from a [unfolded es] obtain n where n: "hex4_val x1 x2 x3 x4 = Some n"
          by (subst (asm) scanstring.simps) (auto split: option.splits)
        note s = Cons True cs u es
        show ?thesis
        proof (cases "is_high_surrogate n \<and> low_escape r \<noteq> None")
          case False
          then consider "\<not> is_high_surrogate n" | "low_escape r = None" by blast
          then have "scanstring s = cons_char n (scanstring r)"
            using n by cases (simp_all add: s scanstring_u scanstring_u_alone)
          with assms have "cons_char n (scanstring r) = Some (out, rest)" by simp
          then obtain out' where o: "scanstring r = Some (out', rest)" "out = n # out'"
            using cons_char_SomeD by blast
          from False have i: "is_high_surrogate n \<longrightarrow> low_escape r = None" by blast
          have s': "s = 92 # 117 # x1 # x2 # x3 # x4 # r" by (simp add: s)
          show ?thesis by (rule single [OF s' n i o])
        next
          case hp: True
          then obtain m r2 where l: "low_escape r = Some (m, r2)" by auto
          with hp n have "scanstring s = cons_char (join_surrogates n m) (scanstring r2)"
            by (simp add: s scanstring_u_pair)
          with assms have "cons_char (join_surrogates n m) (scanstring r2) = Some (out, rest)"
            by simp
          then obtain out' where o: "scanstring r2 = Some (out', rest)"
            "out = join_surrogates n m # out'"
            using cons_char_SomeD by blast
          from hp have h: "is_high_surrogate n" by simp
          have s': "s = 92 # 117 # x1 # x2 # x3 # x4 # r" by (simp add: s)
          show ?thesis by (rule pair [OF s' n h l o])
        qed
      qed
    qed
  qed
qed














lemma map_option_SomeD:
  "map_option (\<lambda>(x, r). (f x, r)) p = Some (v, rest) \<Longrightarrow> \<exists>x. p = Some (x, rest) \<and> v = f x"
  by (cases p) auto




section \<open>The bound on the nesting of the scanner\<close>

lemma skip_ws_length: "length (skip_ws s) \<le> length s"
  by (simp add: skip_ws_def length_dropWhile_le)

lemma skip_ws_tail_length: "skip_ws s = d # ds \<Longrightarrow> length ds < length s"
  using skip_ws_length [of s] by simp

lemma scanstring_length:
  "scanstring s = Some (out, rest) \<Longrightarrow> length rest < length s"
proof (induction "length s" arbitrary: s out rest rule: less_induct)
  case less
  from less.prems show ?case
  proof (cases rule: scanstring_cases)
    case (quote cs)
    then show ?thesis by simp
  next
    case (plain c cs out')
    with less.hyps [of cs out' rest] show ?thesis by simp
  next
    case (simple e es d out')
    with less.hyps [of es out' rest] show ?thesis by simp
  next
    case (single x1 x2 x3 x4 r n out')
    with less.hyps [of r out' rest] show ?thesis by simp
  next
    case (pair x1 x2 x3 x4 r n m r2 out')
    from pair(4) obtain y1 y2 y3 y4 where "r = 92 # 117 # y1 # y2 # y3 # y4 # r2"
      using low_escape_SomeD by blast
    with pair less.hyps [of r2 out' rest] show ?thesis by simp
  qed
qed

lemma match_fraction_length: "match_fraction s = (fr, r) \<Longrightarrow> length r \<le> length s"
  using length_dropWhile_le [of is_digit]
  by (auto simp: match_fraction_def le_Suc_eq split: list.splits if_splits)

lemma match_exponent_length: "match_exponent s = (ex, r) \<Longrightarrow> length r \<le> length s"
proof (cases s)
  case Nil
  assume "match_exponent s = (ex, r)"
  with Nil show ?thesis by (simp add: match_exponent_def)
next
  case (Cons e s1)
  assume a: "match_exponent s = (ex, r)"
  define sg where "sg = (case s1 of [] \<Rightarrow> [] | c # _ \<Rightarrow> if c = 43 \<or> c = 45 then [c] else [])"
  have "length (dropWhile is_digit (drop (length sg) s1)) \<le> length s1"
    using length_dropWhile_le [of is_digit "drop (length sg) s1"] by simp
  with a Cons show ?thesis
    by (auto simp: match_exponent_def sg_def [symmetric] Let_def split: if_splits)
qed

lemma match_number_length:
  assumes "match_number s = Some (b, lit, rest)"
  shows "length rest < length s"
proof -
  define sg where "sg = (case s of [] \<Rightarrow> [] | c # _ \<Rightarrow> if c = 45 then [c] else [])"
  from assms obtain c cs where s1: "drop (length sg) s = c # cs"
    by (cases "drop (length sg) s") (auto simp: match_number_def sg_def Let_def)
  define s2 where "s2 = (if c = 48 then cs else dropWhile is_digit cs)"
  obtain fr s3 where f: "match_fraction s2 = (fr, s3)" by (cases "match_fraction s2")
  obtain ex s4 where e: "match_exponent s3 = (ex, s4)" by (cases "match_exponent s3")
  from assms s1 f e have "rest = s4"
    by (auto simp: match_number_def sg_def [symmetric] s2_def [symmetric] Let_def
        split: if_splits)
  moreover have "length s4 \<le> length s3" using e by (rule match_exponent_length)
  moreover have "length s3 \<le> length s2" using f by (rule match_fraction_length)
  moreover have "length s2 \<le> length cs" by (simp add: s2_def length_dropWhile_le)
  moreover have "length (c # cs) \<le> length s"
    using s1 [symmetric] by (simp del: drop_eq_Nil)
  ultimately show ?thesis by simp
qed

text \<open>Whatever the scanner returns, it has consumed a character.\<close>

lemma scanner_length:
  "(\<forall>s v rest. scan_once fo n s = Some (v, rest) \<longrightarrow> length rest < length s)
   \<and> (\<forall>s xs rest. parse_array fo n s = Some (xs, rest) \<longrightarrow> length rest < length s)
   \<and> (\<forall>s acc kvs rest. parse_object fo n acc s = Some (kvs, rest)
        \<longrightarrow> length rest < length s)"
proof (induction n)
  case 0
  show ?case by (simp add: scan_once.simps parse_array.simps parse_object.simps)
next
  case (Suc n)
  then have ih1: "length rest < length s" if "scan_once fo n s = Some (v, rest)" for s v rest
    using that by blast
  from Suc have ih2: "length rest < length s"
    if "parse_array fo n s = Some (xs, rest)" for s xs rest
    using that by blast
  from Suc have ih3: "length rest < length s"
    if "parse_object fo n acc s = Some (kvs, rest)" for s acc kvs rest
    using that by blast
  have p1: "length rest < length s" if eq: "scan_once fo (Suc n) s = Some (v, rest)"
    for s v rest
  proof -
    from eq obtain c cs where s: "s = c # cs"
      by (cases s) (auto simp: scan_once.simps)
    consider (str) "c = 34" | (obj) "c = 123" | (arr) "c = 91"
      | (other) "c \<noteq> 34" "c \<noteq> 123" "c \<noteq> 91" by blast
    then show ?thesis
    proof cases
      case str
      with eq s have "map_option (\<lambda>(x, rest). (JStr x, rest)) (scanstring cs) = Some (v, rest)"
        by (subst (asm) scan_once.simps) simp
      then obtain x where "scanstring cs = Some (x, rest)"
        by (cases "scanstring cs") auto
      then show ?thesis using scanstring_length [of cs x rest] by (simp add: s)
    next
      case obj
      with eq s obtain d ds where t: "skip_ws cs = d # ds"
        by (subst (asm) scan_once.simps) (auto split: list.splits)
      then have l: "length (d # ds) \<le> length cs" using skip_ws_length [of cs] by simp
      show ?thesis
      proof (cases "d = 125")
        case True
        with eq s obj t l show ?thesis
          by (subst (asm) scan_once.simps) auto
      next
        case False
        with eq s obj t have
          "map_option (\<lambda>(kvs, rest). (JObj kvs, rest)) (parse_object fo n [] (d # ds))
             = Some (v, rest)"
          by (subst (asm) scan_once.simps) simp
        then obtain kvs where "parse_object fo n [] (d # ds) = Some (kvs, rest)"
          by (cases "parse_object fo n [] (d # ds)") auto
        then have "length rest < length (d # ds)" by (rule ih3)
        with l show ?thesis by (simp add: s)
      qed
    next
      case arr
      with eq s obtain d ds where t: "skip_ws cs = d # ds"
        by (subst (asm) scan_once.simps) (auto split: list.splits)
      then have l: "length (d # ds) \<le> length cs" using skip_ws_length [of cs] by simp
      show ?thesis
      proof (cases "d = 93")
        case True
        with eq s arr t l show ?thesis
          by (subst (asm) scan_once.simps) auto
      next
        case False
        with eq s arr t have
          "map_option (\<lambda>(xs, rest). (JArr xs, rest)) (parse_array fo n (d # ds))
             = Some (v, rest)"
          by (subst (asm) scan_once.simps) simp
        then obtain xs where "parse_array fo n (d # ds) = Some (xs, rest)"
          by (cases "parse_array fo n (d # ds)") auto
        then have "length rest < length (d # ds)" by (rule ih2)
        with l show ?thesis by (simp add: s)
      qed
    next
      case other
      have mn: "length r < Suc (length cs)" if "match_number (c # cs) = Some (b, lit, r)"
        for b lit r
        using match_number_length [OF that] by simp
      from eq s other show ?thesis
        by (subst (asm) scan_once.simps)
          (auto split: if_splits option.splits dest: mn)
    qed
  qed
  have p2: "length rest < length s" if eq: "parse_array fo (Suc n) s = Some (xs, rest)"
    for s xs rest
  proof -
    from eq obtain x r where x: "scan_once fo n s = Some (x, r)"
      by (subst (asm) parse_array.simps) (auto split: option.splits)
    then have r: "length r < length s" by (rule ih1)
    from eq x obtain d ds where t: "skip_ws r = d # ds"
      by (subst (asm) parse_array.simps) (auto split: list.splits)
    then have ds: "length ds < length r" by (rule skip_ws_tail_length)
    show ?thesis
    proof (cases "d = 93")
      case True
      with eq x t r ds show ?thesis
        by (subst (asm) parse_array.simps) auto
    next
      case False
      with eq x t have
        "map_option (\<lambda>(xs, rest'). (x # xs, rest')) (parse_array fo n (skip_ws ds))
           = Some (xs, rest)"
        by (subst (asm) parse_array.simps) (auto split: if_splits)
      then obtain xs' where "parse_array fo n (skip_ws ds) = Some (xs', rest)"
        by (cases "parse_array fo n (skip_ws ds)") auto
      then have "length rest < length (skip_ws ds)" by (rule ih2)
      with r ds skip_ws_length [of ds] show ?thesis by simp
    qed
  qed
  have p3: "length rest < length s" if eq: "parse_object fo (Suc n) acc s = Some (kvs, rest)"
    for s acc kvs rest
  proof -
    from eq obtain s1 where s: "s = 34 # s1"
      by (subst (asm) parse_object.simps) (auto split: list.splits if_splits)
    from eq s obtain key s2 where k: "scanstring s1 = Some (key, s2)"
      by (subst (asm) parse_object.simps) (auto split: option.splits)
    then have s2: "length s2 < length s1" by (rule scanstring_length)
    from eq s k obtain s3 where t: "skip_ws s2 = 58 # s3"
      by (subst (asm) parse_object.simps) (auto split: list.splits if_splits)
    then have s3: "length s3 < length s2" by (rule skip_ws_tail_length)
    from eq s k t obtain v s4 where v: "scan_once fo n (skip_ws s3) = Some (v, s4)"
      by (subst (asm) parse_object.simps) (auto split: option.splits)
    then have "length s4 < length (skip_ws s3)" by (rule ih1)
    with skip_ws_length [of s3] have s4: "length s4 < length s3" by simp
    from eq s k t v obtain d ds where u: "skip_ws s4 = d # ds"
      by (subst (asm) parse_object.simps) (auto simp: Let_def split: list.splits)
    then have ds: "length ds < length s4" by (rule skip_ws_tail_length)
    show ?thesis
    proof (cases "d = 125")
      case True
      with eq s k t v u s2 s3 s4 ds show ?thesis
        by (subst (asm) parse_object.simps) (auto simp: Let_def)
    next
      case False
      with eq s k t v u have
        "parse_object fo n (dict_setitem acc key v) (skip_ws ds) = Some (kvs, rest)"
        by (subst (asm) parse_object.simps) (auto simp: Let_def split: if_splits)
      then have "length rest < length (skip_ws ds)" by (rule ih3)
      with s s2 s3 s4 ds skip_ws_length [of ds] show ?thesis by simp
    qed
  qed
  from p1 p2 p3 show ?case by blast
qed

lemma scan_once_length:
  "scan_once fo n s = Some (v, rest) \<Longrightarrow> length rest < length s"
  using scanner_length [of fo n] by blast

text \<open>
  Between two calls of the scanner at most two levels of nesting are used for each
  character consumed: above twice the length of the input the bound on the nesting
  does not change the result.
\<close>

lemma scanner_fuel:
  "(\<forall>s m. 2 * length s < n \<longrightarrow> n \<le> m \<longrightarrow> scan_once fo m s = scan_once fo n s)
   \<and> (\<forall>s m. 2 * length s + 1 < n \<longrightarrow> n \<le> m \<longrightarrow> parse_array fo m s = parse_array fo n s)
   \<and> (\<forall>s acc m. 2 * length s + 1 < n \<longrightarrow> n \<le> m
        \<longrightarrow> parse_object fo m acc s = parse_object fo n acc s)"
proof (induction n)
  case 0
  show ?case by simp
next
  case (Suc n)
  then have ih1: "scan_once fo m s = scan_once fo n s" if "2 * length s < n" "n \<le> m" for s m
    using that by blast
  from Suc have ih2: "parse_array fo m s = parse_array fo n s"
    if "2 * length s + 1 < n" "n \<le> m" for s m
    using that by blast
  from Suc have ih3: "parse_object fo m acc s = parse_object fo n acc s"
    if "2 * length s + 1 < n" "n \<le> m" for s acc m
    using that by blast
  have p1: "scan_once fo m s = scan_once fo (Suc n) s"
    if len: "2 * length s < Suc n" and le: "Suc n \<le> m" for s m
  proof -
    from le obtain m' where m: "m = Suc m'" and le': "n \<le> m'" by (cases m) auto
    show ?thesis
    proof (cases s)
      case Nil
      then show ?thesis by (simp add: m scan_once.simps)
    next
      case (Cons c cs)
      show ?thesis
      proof (cases "skip_ws cs")
        case Nil
        then show ?thesis by (simp add: m Cons scan_once.simps)
      next
        case t: (Cons d ds)
        then have "length (d # ds) \<le> length cs" using skip_ws_length [of cs] by simp
        with len Cons have l: "2 * length (d # ds) + 1 < n" by simp
        from l le' have "parse_array fo m' (d # ds) = parse_array fo n (d # ds)"
          by (rule ih2)
        moreover from l le' have
          "parse_object fo m' [] (d # ds) = parse_object fo n [] (d # ds)"
          by (rule ih3)
        ultimately show ?thesis by (simp add: m Cons t scan_once.simps)
      qed
    qed
  qed
  have p2: "parse_array fo m s = parse_array fo (Suc n) s"
    if len: "2 * length s + 1 < Suc n" and le: "Suc n \<le> m" for s m
  proof -
    from le obtain m' where m: "m = Suc m'" and le': "n \<le> m'" by (cases m) auto
    from len le' have e: "scan_once fo m' s = scan_once fo n s" by (intro ih1) simp_all
    show ?thesis
    proof (cases "scan_once fo n s")
      case None
      with e show ?thesis by (simp add: m parse_array.simps)
    next
      case (Some xr)
      obtain x r where xr: "xr = (x, r)" by (cases xr)
      with Some have r: "length r < length s" using scan_once_length by blast
      show ?thesis
      proof (cases "skip_ws r")
        case Nil
        with e Some xr show ?thesis by (simp add: m parse_array.simps)
      next
        case t: (Cons d ds)
        then have "length ds < length r" by (rule skip_ws_tail_length)
        with r len skip_ws_length [of ds] have "2 * length (skip_ws ds) + 1 < n" by simp
        then have "parse_array fo m' (skip_ws ds) = parse_array fo n (skip_ws ds)"
          using le' by (rule ih2)
        with e Some xr t show ?thesis by (simp add: m parse_array.simps)
      qed
    qed
  qed
  have p3: "parse_object fo m acc s = parse_object fo (Suc n) acc s"
    if len: "2 * length s + 1 < Suc n" and le: "Suc n \<le> m" for s acc m
  proof -
    from le obtain m' where m: "m = Suc m'" and le': "n \<le> m'" by (cases m) auto
    show ?thesis
    proof (cases s)
      case Nil
      then show ?thesis by (simp add: m parse_object.simps)
    next
      case (Cons q s1)
      show ?thesis
      proof (cases "scanstring s1")
        case None
        with Cons show ?thesis by (simp add: m parse_object.simps)
      next
        case (Some ks)
        obtain key s2 where ks: "ks = (key, s2)" by (cases ks)
        with Some have s2: "length s2 < length s1" using scanstring_length by blast
        show ?thesis
        proof (cases "skip_ws s2")
          case Nil
          with Cons Some ks show ?thesis by (simp add: m parse_object.simps)
        next
          case t: (Cons c s3)
          then have s3: "length s3 < length s2" by (rule skip_ws_tail_length)
          with s2 len Cons skip_ws_length [of s3] have "2 * length (skip_ws s3) < n" by simp
          then have e: "scan_once fo m' (skip_ws s3) = scan_once fo n (skip_ws s3)"
            using le' by (rule ih1)
          show ?thesis
          proof (cases "scan_once fo n (skip_ws s3)")
            case None
            with e Cons Some ks t show ?thesis by (simp add: m parse_object.simps)
          next
            case v: (Some vr)
            obtain v s4 where vr: "vr = (v, s4)" by (cases vr)
            with v have "length s4 < length (skip_ws s3)" using scan_once_length by blast
            with skip_ws_length [of s3] have s4: "length s4 < length s3" by simp
            show ?thesis
            proof (cases "skip_ws s4")
              case Nil
              with e Cons Some ks t v vr show ?thesis by (simp add: m parse_object.simps)
            next
              case u: (Cons d ds)
              then have "length ds < length s4" by (rule skip_ws_tail_length)
              with s2 s3 s4 len \<open>s = q # s1\<close> skip_ws_length [of ds]
              have "2 * length (skip_ws ds) + 1 < n" by simp
              then have "parse_object fo m' (dict_setitem acc key v) (skip_ws ds)
                  = parse_object fo n (dict_setitem acc key v) (skip_ws ds)"
                using le' by (rule ih3)
              with e Cons Some ks t v vr u show ?thesis
                by (simp add: m parse_object.simps Let_def)
            qed
          qed
        qed
      qed
    qed
  qed
  from p1 p2 p3 show ?case by blast
qed

text \<open>\<open>json_loads\<close> would return the same with any larger bound.\<close>

lemma json_loads_fuel:
  assumes "Suc (2 * length s) \<le> m"
  shows "scan_once fo m (skip_ws s) = scan_once fo (Suc (2 * length s)) (skip_ws s)"
proof -
  have "2 * length (skip_ws s) < Suc (2 * length s)"
    using skip_ws_length [of s] by simp
  with assms show ?thesis using scanner_fuel [of "Suc (2 * length s)" fo] by blast
qed


section \<open>The report generator: the returned artifact\<close>


lemma float_free_floats_ok: "float_free v \<Longrightarrow> floats_ok fo v"
  by (induction v) (auto simp: list_all_iff)

lemma wf_json_ok_report: "wf_json ok_report"
  by (simp add: ok_report_def valid_str_def str_def is_high_surrogate_def)




end
